theory Spec2Isabelle
  imports Main
begin

section \<open>The module \<open>colab_logica\<close>: globals, collaborators, errors\<close>

text \<open>
  The module keeps four globals (\<open>PROJECT\<close>, \<open>DB_CONNECTION\<close>, \<open>USER_AUTHENTICATED\<close>,
  \<open>TABULATED_OUTPUT\<close>) and talks to collaborators that are not part of the file: the
  identity provider, the console, BigQuery, pandas, the database connection, the parser,
  the compiler and the staged executor, and the notebook's user namespace.

  A Python exception is a value of type \<open>error\<close>. The first four constructors are raised
  by the interpreter or by the module itself; the last three come out of a collaborator.
\<close>

datatype error =
    IndexError
  | AttributeError
  | KeyError string
  | Exception string
  | ParsingException string
  | RuleCompileException string
  | External string

text \<open>
  The calls that leave the module are recorded, in order, as events: the handshake, the
  prompt, the queries, the parser, the compiler and the executor. (Building the program
  object and reading its engine annotation, lines 131 and 132, are not recorded.)
  \<open>'c\<close> is the type of connection handles, \<open>'e\<close> the type of the compiler's
  execution objects.
\<close>

datatype ('c, 'e) event =
    EvAuthenticateUser
  | EvInput
  | EvBigQueryQuery "string option" string
  | EvReadSql string "'c option"
  | EvExecute 'c string
  | EvParseFile string
  | EvFormattedPredicateSql string
  | EvExecuteLogicaProgram "'e list"

text \<open>What \<open>ip.push\<close> binds in the notebook's namespace: a query text or a table.\<close>

datatype 't binding = SqlText string | Table 't

record ('c, 't, 'e) state =
  PROJECT :: "string option"
  DB_CONNECTION :: "'c option"
  USER_AUTHENTICATED :: bool
  TABULATED_OUTPUT :: bool
  session :: "string \<rightharpoonup> 't binding"
  trace :: "('c, 'e) event list"

text \<open>
  The collaborators. A collaborator with effects gets the events so far, so that its answer
  may depend on everything done before (a \<open>SELECT\<close> sees the rows of an earlier
  \<open>INSERT\<close>). \<open>'r\<close> is the type of parsed rules; the program object that
  \<open>universe.LogicaProgram\<close> builds from them is identified with the rules it was built
  from, so \<open>LogicaProgram\<close> only says whether the constructor raises. \<open>SplitRaw\<close>,
  \<open>ParseFile\<close>, \<open>LogicaProgram\<close>, \<open>Engine\<close>, \<open>FormattedPredicateSql\<close> and
  \<open>ExecuteLogicaProgram\<close> are functions of the repository that lie outside this file;
  they are parameters here.
\<close>

record ('c, 't, 'r, 'e) env =
  authenticate_user :: "('c, 'e) event list \<Rightarrow> error option"
  input_line :: "('c, 'e) event list \<Rightarrow> error + string"
  bigquery_query :: "('c, 'e) event list \<Rightarrow> string option \<Rightarrow> string \<Rightarrow> error + 't"
  read_sql :: "('c, 'e) event list \<Rightarrow> string \<Rightarrow> 'c option \<Rightarrow> error + 't"
  execute :: "('c, 'e) event list \<Rightarrow> 'c \<Rightarrow> string \<Rightarrow> error option"
  SplitRaw :: "string \<Rightarrow> string \<Rightarrow> error + string list"
  ParseFile :: "string \<Rightarrow> error + 'r"
  LogicaProgram :: "'r \<Rightarrow> error option"
  Engine :: "'r \<Rightarrow> error + string"
  FormattedPredicateSql :: "'r \<Rightarrow> string \<Rightarrow> error + string \<times> 'e"
  ExecuteLogicaProgram :: "('c, 'e) event list \<Rightarrow> 'e list \<Rightarrow> error + (string \<rightharpoonup> 't)"

definition log :: "('c, 'e) event \<Rightarrow> ('c, 't, 'e) state \<Rightarrow> ('c, 't, 'e) state" where
  "log ev s = s\<lparr>trace := trace s @ [ev]\<rparr>"

text \<open>The state of a fresh process (lines 41 to 47), with an empty namespace.\<close>

definition initial :: "('c, 't, 'e) state" where
  "initial = \<lparr>PROJECT = None, DB_CONNECTION = None, USER_AUTHENTICATED = False,
     TABULATED_OUTPUT = True, session = Map.empty, trace = []\<rparr>"

section \<open>The setters and the authentication gate\<close>

definition SetProject :: "string option \<Rightarrow> ('c, 't, 'e) state \<Rightarrow> ('c, 't, 'e) state" where
  "SetProject project s = s\<lparr>PROJECT := project\<rparr>"

definition SetDbConnection :: "'c option \<Rightarrow> ('c, 't, 'e) state \<Rightarrow> ('c, 't, 'e) state" where
  "SetDbConnection connection s = s\<lparr>DB_CONNECTION := connection\<rparr>"

definition SetTabulatedOutput :: "bool \<Rightarrow> ('c, 't, 'e) state \<Rightarrow> ('c, 't, 'e) state" where
  "SetTabulatedOutput tabulated_output s = s\<lparr>TABULATED_OUTPUT := tabulated_output\<rparr>"

text \<open>
  \<open>EnsureAuthenticatedUser\<close> (lines 57 to 68). The three \<open>print\<close> calls write to the
  notebook and return nothing; they are left out, the prompt is the call of \<open>input\<close>.
  An exception of the handshake or of \<open>input\<close> leaves before line 68, so the flag stays
  as it was.
\<close>

definition EnsureAuthenticatedUser ::
  "('c, 't, 'r, 'e) env \<Rightarrow> ('c, 't, 'e) state \<Rightarrow> (error + unit) \<times> ('c, 't, 'e) state" where
  "EnsureAuthenticatedUser env s =
     (if USER_AUTHENTICATED s then (Inr (), s)
      else
        (let s1 = log EvAuthenticateUser s in
         case authenticate_user env (trace s) of
           Some e \<Rightarrow> (Inl e, s1)
         | None \<Rightarrow>
             (case PROJECT s1 of
                None \<Rightarrow>
                  (let s2 = log EvInput s1 in
                   case input_line env (trace s1) of
                     Inl e \<Rightarrow> (Inl e, s2)
                   | Inr p \<Rightarrow> (Inr (), s2\<lparr>PROJECT := Some p, USER_AUTHENTICATED := True\<rparr>))
              | Some _ \<Rightarrow> (Inr (), s1\<lparr>USER_AUTHENTICATED := True\<rparr>))))"

section \<open>\<open>RunSQL\<close>\<close>

text \<open>
  Python's \<open>statements[:-2]\<close> is the list without its last two elements (empty when there
  are at most two), and \<open>statements[-2]\<close> raises \<open>IndexError\<close> when there are fewer than two.
\<close>

definition all_but_last_two :: "'a list \<Rightarrow> 'a list" where
  "all_but_last_two xs = take (length xs - 2) xs"

definition second_to_last :: "'a list \<Rightarrow> error + 'a" where
  "second_to_last xs = (if length xs < 2 then Inl IndexError else Inr (xs ! (length xs - 2)))"

text \<open>
  The loop of lines 115 and 116. \<open>DB_CONNECTION.execute\<close> on \<open>None\<close> is an
  \<open>AttributeError\<close> of the interpreter; the cursor returned is never read.
\<close>

fun execute_each ::
  "('c, 't, 'r, 'e) env \<Rightarrow> string list \<Rightarrow> ('c, 't, 'e) state \<Rightarrow> (error + unit) \<times> ('c, 't, 'e) state" where
  "execute_each env [] s = (Inr (), s)"
| "execute_each env (st # sts) s =
     (case DB_CONNECTION s of
        None \<Rightarrow> (Inl AttributeError, s)
      | Some c \<Rightarrow>
          (case execute env (trace s) c st of
             Some e \<Rightarrow> (Inl e, log (EvExecute c st) s)
           | None \<Rightarrow> execute_each env sts (log (EvExecute c st) s)))"

definition unsupported_message :: string where
  "unsupported_message = ''Logica only supports BigQuery, PostgreSQL and SQLite for now.''"

definition RunSQL ::
  "('c, 't, 'r, 'e) env \<Rightarrow> string \<Rightarrow> string \<Rightarrow> ('c, 't, 'e) state \<Rightarrow> (error + 't) \<times> ('c, 't, 'e) state" where
  "RunSQL env sql engine s =
     (if engine = ''bigquery'' then
        (case EnsureAuthenticatedUser env s of
           (Inl e, s1) \<Rightarrow> (Inl e, s1)
         | (Inr _, s1) \<Rightarrow>
             (bigquery_query env (trace s1) (PROJECT s1) sql,
              log (EvBigQueryQuery (PROJECT s1) sql) s1))
      else if engine = ''psql'' then
        (read_sql env (trace s) sql (DB_CONNECTION s), log (EvReadSql sql (DB_CONNECTION s)) s)
      else if engine = ''sqlite'' then
        (case SplitRaw env sql '';'' of
           Inl e \<Rightarrow> (Inl e, s)
         | Inr statements \<Rightarrow>
             (case execute_each env (all_but_last_two statements) s of
                (Inl e, s1) \<Rightarrow> (Inl e, s1)
              | (Inr _, s1) \<Rightarrow>
                  (case second_to_last statements of
                     Inl e \<Rightarrow> (Inl e, s1)
                   | Inr st \<Rightarrow>
                       (read_sql env (trace s1) st (DB_CONNECTION s1),
                        log (EvReadSql st (DB_CONNECTION s1)) s1))))
      else (Inl (Exception unsupported_message), s))"

section \<open>\<open>ParseList\<close> and \<open>Logica\<close>\<close>

text \<open>
  \<open>str.strip()\<close> removes white space at both ends; of the code points below 256 Python
  counts these twelve as white space (a \<open>char\<close> here is a code point below 256).
  \<open>str.split(',')\<close> cuts at every comma and always returns at least one piece.
\<close>

definition isspace :: "char \<Rightarrow> bool" where
  "isspace c \<longleftrightarrow> c \<in> {CHR 0x09, CHR 0x0A, CHR 0x0B, CHR 0x0C, CHR 0x0D,
                        CHR 0x1C, CHR 0x1D, CHR 0x1E, CHR 0x1F, CHR '' '',
                        CHR 0x85, CHR 0xA0}"

definition strip :: "string \<Rightarrow> string" where
  "strip s = rev (dropWhile isspace (rev (dropWhile isspace s)))"

fun cons_head :: "'a \<Rightarrow> 'a list list \<Rightarrow> 'a list list" where
  "cons_head c [] = [[c]]"
| "cons_head c (p # ps) = (c # p) # ps"

fun split_sep :: "char \<Rightarrow> string \<Rightarrow> string list" where
  "split_sep d [] = [[]]"
| "split_sep d (c # cs) = (if c = d then [] # split_sep d cs else cons_head c (split_sep d cs))"

definition ParseList :: "string \<Rightarrow> string list" where
  "ParseList line =
     (let line' = strip line in
      if line' = [] then [] else map strip (split_sep CHR '','' line'))"

text \<open>
  The inner loop of \<open>Logica\<close> (lines 167 to 180): for every requested predicate, in request
  order, \<open>result_map[predicate]\<close> is looked up (a \<open>KeyError\<close> when the key is missing) and
  bound in the namespace. What is printed and displayed is not modelled.
\<close>

fun push_results ::
  "(string \<rightharpoonup> 't) \<Rightarrow> string list \<Rightarrow> ('c, 't, 'e) state \<Rightarrow> (error + unit) \<times> ('c, 't, 'e) state" where
  "push_results result_map [] s = (Inr (), s)"
| "push_results result_map (predicate # rest) s =
     (case result_map predicate of
        None \<Rightarrow> (Inl (KeyError predicate), s)
      | Some t \<Rightarrow>
          push_results result_map rest (s\<lparr>session := (session s)(predicate \<mapsto> Table t)\<rparr>))"

text \<open>
  The outer loop (lines 139 to 180), with the predicates still to visit as the list that
  recursion runs over. Each round compiles one predicate, appends the compiler's execution
  object to \<open>executions\<close>, binds the query text, and then, since lines 165 to 180 are
  indented into the body of this loop, runs \<open>ExecuteLogicaProgram\<close> on the executions
  collected so far and the inner loop over all requested predicates. A
  \<open>RuleCompileException\<close> is shown and ends the call normally; any other exception
  leaves the call.
\<close>

fun Logica_loop ::
  "('c, 't, 'r, 'e) env \<Rightarrow> 'r \<Rightarrow> string list \<Rightarrow> string list \<Rightarrow> 'e list \<Rightarrow>
   ('c, 't, 'e) state \<Rightarrow> (error + unit) \<times> ('c, 't, 'e) state" where
  "Logica_loop env rules predicates [] executions s = (Inr (), s)"
| "Logica_loop env rules predicates (predicate # rest) executions s =
     (let s1 = log (EvFormattedPredicateSql predicate) s in
      case FormattedPredicateSql env rules predicate of
        Inl (RuleCompileException m) \<Rightarrow> (Inr (), s1)
      | Inl e \<Rightarrow> (Inl e, s1)
      | Inr (sql, execution) \<Rightarrow>
          (let executions' = executions @ [execution];
               s2 = s1\<lparr>session := (session s1)(predicate @ ''_sql'' \<mapsto> SqlText sql)\<rparr>;
               s3 = log (EvExecuteLogicaProgram executions') s2
           in case ExecuteLogicaProgram env (trace s2) executions' of
                Inl e \<Rightarrow> (Inl e, s3)
              | Inr result_map \<Rightarrow>
                  (case push_results result_map predicates s3 of
                     (Inl e, s4) \<Rightarrow> (Inl e, s4)
                   | (Inr _, s4) \<Rightarrow> Logica_loop env rules predicates rest executions' s4)))"

text \<open>
  \<open>Logica\<close> (lines 123 to 180). A \<open>ParsingException\<close> is shown and ends the call
  normally. Lines 131 and 132 build the program and read its engine annotation outside
  every \<open>try\<close>: an exception there leaves the call. The engine that was read is used
  only by the lines that are commented out, and \<open>run_query\<close> only chooses what is
  printed.
\<close>

definition Logica ::
  "('c, 't, 'r, 'e) env \<Rightarrow> string \<Rightarrow> string \<Rightarrow> bool \<Rightarrow> ('c, 't, 'e) state \<Rightarrow>
   (error + unit) \<times> ('c, 't, 'e) state" where
  "Logica env line cell run_query s =
     (let predicates = ParseList line;
          s1 = log (EvParseFile cell) s
      in case ParseFile env cell of
           Inl (ParsingException m) \<Rightarrow> (Inr (), s1)
         | Inl e \<Rightarrow> (Inl e, s1)
         | Inr rules \<Rightarrow>
             (case LogicaProgram env rules of
                Some e \<Rightarrow> (Inl e, s1)
              | None \<Rightarrow>
                  (case Engine env rules of
                     Inl e \<Rightarrow> (Inl e, s1)
                   | Inr engine \<Rightarrow> Logica_loop env rules predicates predicates [] s1)))"

section \<open>Calls of the module, one after another\<close>

datatype 'c call =
    CallSetProject "string option"
  | CallSetDbConnection "'c option"
  | CallSetTabulatedOutput bool
  | CallEnsureAuthenticatedUser
  | CallRunSQL string string
  | CallLogica string string bool

fun call_state ::
  "('c, 't, 'r, 'e) env \<Rightarrow> 'c call \<Rightarrow> ('c, 't, 'e) state \<Rightarrow> ('c, 't, 'e) state" where
  "call_state env (CallSetProject project) s = SetProject project s"
| "call_state env (CallSetDbConnection connection) s = SetDbConnection connection s"
| "call_state env (CallSetTabulatedOutput b) s = SetTabulatedOutput b s"
| "call_state env CallEnsureAuthenticatedUser s = snd (EnsureAuthenticatedUser env s)"
| "call_state env (CallRunSQL sql engine) s = snd (RunSQL env sql engine s)"
| "call_state env (CallLogica line cell run_query) s = snd (Logica env line cell run_query s)"

fun calls_state ::
  "('c, 't, 'r, 'e) env \<Rightarrow> 'c call list \<Rightarrow> ('c, 't, 'e) state \<Rightarrow> ('c, 't, 'e) state" where
  "calls_state env [] s = s"
| "calls_state env (c # cs) s = calls_state env cs (call_state env c s)"

section \<open>The statement splitter of the specification\<close>











section \<open>Concrete collaborators\<close>

text \<open>
  A small world to run the module in: connections are numbers, a table is named by the
  query that produced it, a predicate's execution object is its name. The reader refuses a
  missing connection, the splitter cuts at every separator, the compiler rejects the
  predicate \<open>Broken\<close>, and the executor returns one table for each execution it is given.
\<close>

definition demo_env :: "(nat, string, unit, string) env" where
  "demo_env = \<lparr>
     authenticate_user = (\<lambda>h. None),
     input_line = (\<lambda>h. Inr ''proj-a''),
     bigquery_query = (\<lambda>h project sql. Inr sql),
     read_sql = (\<lambda>h sql connection.
        case connection of None \<Rightarrow> Inl (External ''no connection'') | Some c \<Rightarrow> Inr sql),
     execute = (\<lambda>h c sql. None),
     SplitRaw = (\<lambda>sql separator.
        case separator of [d] \<Rightarrow> Inr (split_sep d sql) | _ \<Rightarrow> Inl (External ''separator'')),
     ParseFile = (\<lambda>cell. Inr ()),
     LogicaProgram = (\<lambda>rules. None),
     Engine = (\<lambda>rules. Inr ''sqlite''),
     FormattedPredicateSql = (\<lambda>rules predicate.
        if predicate = ''Broken'' then Inl (RuleCompileException ''Broken'')
        else Inr (''SELECT * FROM '' @ predicate, predicate)),
     ExecuteLogicaProgram = (\<lambda>h executions.
        Inr (map_of (map (\<lambda>e. (e, ''table of '' @ e)) executions)))\<rparr>"

text \<open>The same world with an identity provider that refuses the handshake.\<close>

definition refusing_env :: "(nat, string, unit, string) env" where
  "refusing_env = demo_env\<lparr>authenticate_user := (\<lambda>h. Some (External ''handshake refused''))\<rparr>"

text \<open>The same world in which the second statement handed to \<open>execute\<close> is rejected.\<close>

definition rejecting_env :: "(nat, string, unit, string) env" where
  "rejecting_env = demo_env\<lparr>execute := (\<lambda>h c sql.
     if length h = 1 then Some (External ''rejected'') else None)\<rparr>"

text \<open>
  A world with dependent predicates: an execution object lists the tables its run
  computes, the predicate's own and those it depends on. \<open>C\<close> depends on \<open>A\<close> and
  \<open>B\<close>. The executor returns the table of every name it computes, except that the
  computation of \<open>A\<close> fails and \<open>A\<close> is left out of the result map.
\<close>

definition dependent_env :: "(nat, string, unit, string list) env" where
  "dependent_env = \<lparr>
     authenticate_user = (\<lambda>h. None),
     input_line = (\<lambda>h. Inr ''proj-a''),
     bigquery_query = (\<lambda>h project sql. Inr sql),
     read_sql = (\<lambda>h sql connection.
        case connection of None \<Rightarrow> Inl (External ''no connection'') | Some c \<Rightarrow> Inr sql),
     execute = (\<lambda>h c sql. None),
     SplitRaw = (\<lambda>sql separator.
        case separator of [d] \<Rightarrow> Inr (split_sep d sql) | _ \<Rightarrow> Inl (External ''separator'')),
     ParseFile = (\<lambda>cell. Inr ()),
     LogicaProgram = (\<lambda>rules. None),
     Engine = (\<lambda>rules. Inr ''sqlite''),
     FormattedPredicateSql = (\<lambda>rules predicate.
        Inr (''SELECT * FROM '' @ predicate,
             if predicate = ''C'' then [''C'', ''A'', ''B''] else [predicate])),
     ExecuteLogicaProgram = (\<lambda>h executions.
        Inr (map_of (map (\<lambda>n. (n, ''table of '' @ n))
               (filter (\<lambda>n. n \<noteq> ''A'') (concat executions)))))\<rparr>"

definition connected :: "(nat, string, string) state" where
  "connected = SetDbConnection (Some 7) initial"

section \<open>Properties of \<open>RunSQL\<close>\<close>

text \<open>
  C4. For every engine string other than \<open>bigquery\<close>, \<open>psql\<close> and \<open>sqlite\<close>, \<open>RunSQL\<close>
  raises the exception whose message names BigQuery, PostgreSQL and SQLite, and the state
  after the call is the state before it: no global is written and no collaborator is
  called (the trace is part of the state), so neither the identity provider nor a
  connection is touched.
\<close>

theorem RunSQL_unsupported_engine:
  "engine \<notin> {''bigquery'', ''psql'', ''sqlite''} \<Longrightarrow>
   RunSQL env sql engine s =
     (Inl (Exception ''Logica only supports BigQuery, PostgreSQL and SQLite for now.''), s)"
  by (simp add: RunSQL_def unsupported_message_def)

theorem RunSQL_unsupported_engine_witness:
  "''unknown'' \<notin> {''bigquery'', ''psql'', ''sqlite''} \<and>
   RunSQL demo_env ''SELECT 1'' ''unknown'' initial =
     (Inl (Exception ''Logica only supports BigQuery, PostgreSQL and SQLite for now.''), initial)"
  using RunSQL_unsupported_engine [of "''unknown''" demo_env "''SELECT 1''" initial] by simp

text \<open>
  C10. When the splitter returns fewer than two statements for a sqlite script (one
  statement, or none), the loop over \<open>statements[:-2]\<close> has nothing to run and
  \<open>statements[-2]\<close> raises \<open>IndexError\<close>: the call fails with that error, nothing has been
  handed to the connection, and no result is returned.
\<close>

theorem RunSQL_sqlite_short_unit:
  assumes "SplitRaw env sql '';'' = Inr statements" and "length statements < 2"
  shows "RunSQL env sql ''sqlite'' s = (Inl IndexError, s)"
proof -
  have "all_but_last_two statements = []"
    using assms(2) by (simp add: all_but_last_two_def)
  moreover have "second_to_last statements = Inl IndexError"
    using assms(2) by (simp add: second_to_last_def)
  ultimately show ?thesis
    using assms(1) by (simp add: RunSQL_def)
qed

theorem RunSQL_sqlite_short_unit_witness:
  "SplitRaw demo_env ''SELECT 1'' '';'' = Inr [''SELECT 1''] \<and> length [''SELECT 1''] < 2 \<and>
   RunSQL demo_env ''SELECT 1'' ''sqlite'' connected = (Inl IndexError, connected)"
proof -
  have split: "SplitRaw demo_env ''SELECT 1'' '';'' = Inr [''SELECT 1'']"
    by (simp add: demo_env_def)
  have short: "length [''SELECT 1''] < 2"
    by simp
  show ?thesis
    using split short RunSQL_sqlite_short_unit [OF split short, of connected] by simp
qed

section \<open>The sqlite branch, statement by statement\<close>

text \<open>
  The loop over the leading statements. When \<open>execute\<close> accepts every statement, each
  in the history the earlier ones have left, the loop returns normally having handed over
  all of them, in order. When \<open>execute\<close> rejects the statement at position \<open>k\<close>, having
  accepted the earlier ones, the loop ends there with that exception.
\<close>

lemma execute_each_all:
  assumes "DB_CONNECTION s = Some c"
    and "\<forall>k < length sts. execute env (trace s @ map (EvExecute c) (take k sts)) c (sts ! k) = None"
  shows "execute_each env sts s = (Inr (), s\<lparr>trace := trace s @ map (EvExecute c) sts\<rparr>)"
  using assms
proof (induction sts arbitrary: s)
  case Nil
  then show ?case by simp
next
  case (Cons st sts)
  let ?s1 = "log (EvExecute c st) s"
  have first: "execute env (trace s) c st = None"
    using Cons.prems(2) by force
  have conn: "DB_CONNECTION ?s1 = Some c"
    using Cons.prems(1) by (simp add: log_def)
  have later: "\<forall>k < length sts.
      execute env (trace ?s1 @ map (EvExecute c) (take k sts)) c (sts ! k) = None"
  proof (intro allI impI)
    fix k
    assume "k < length sts"
    then have "execute env (trace s @ map (EvExecute c) (take (Suc k) (st # sts))) c
        ((st # sts) ! Suc k) = None"
      using Cons.prems(2) by (metis Suc_less_eq length_Cons)
    then show "execute env (trace ?s1 @ map (EvExecute c) (take k sts)) c (sts ! k) = None"
      by (simp add: log_def)
  qed
  have "execute_each env (st # sts) s = execute_each env sts ?s1"
    using first Cons.prems(1) by simp
  also have "\<dots> = (Inr (), ?s1\<lparr>trace := trace ?s1 @ map (EvExecute c) sts\<rparr>)"
    by (rule Cons.IH [OF conn later])
  finally show ?case
    by (simp add: log_def)
qed

lemma execute_each_rejected:
  assumes "DB_CONNECTION s = Some c"
    and "k < length sts"
    and "\<forall>j < k. execute env (trace s @ map (EvExecute c) (take j sts)) c (sts ! j) = None"
    and "execute env (trace s @ map (EvExecute c) (take k sts)) c (sts ! k) = Some e"
  shows "execute_each env sts s =
           (Inl e, s\<lparr>trace := trace s @ map (EvExecute c) (take (Suc k) sts)\<rparr>)"
  using assms
proof (induction sts arbitrary: s k)
  case Nil
  then show ?case by simp
next
  case (Cons st sts)
  let ?s1 = "log (EvExecute c st) s"
  show ?case
  proof (cases k)
    case 0
    then have "execute env (trace s) c st = Some e"
      using Cons.prems(4) by simp
    then show ?thesis
      using 0 Cons.prems(1) by (simp add: log_def)
  next
    case (Suc k')
    have first: "execute env (trace s) c st = None"
      using Cons.prems(3) Suc by force
    have conn: "DB_CONNECTION ?s1 = Some c"
      using Cons.prems(1) by (simp add: log_def)
    have k': "k' < length sts"
      using Cons.prems(2) Suc by simp
    have earlier: "\<forall>j < k'.
        execute env (trace ?s1 @ map (EvExecute c) (take j sts)) c (sts ! j) = None"
    proof (intro allI impI)
      fix j
      assume "j < k'"
      then have "execute env (trace s @ map (EvExecute c) (take (Suc j) (st # sts))) c
          ((st # sts) ! Suc j) = None"
        using Cons.prems(3) Suc by (metis Suc_less_eq)
      then show "execute env (trace ?s1 @ map (EvExecute c) (take j sts)) c (sts ! j) = None"
        by (simp add: log_def)
    qed
    have here: "execute env (trace ?s1 @ map (EvExecute c) (take k' sts)) c (sts ! k') = Some e"
      using Cons.prems(4) Suc by (simp add: log_def)
    have "execute_each env (st # sts) s = execute_each env sts ?s1"
      using first Cons.prems(1) by simp
    also have "\<dots> = (Inl e, ?s1\<lparr>trace := trace ?s1 @ map (EvExecute c) (take (Suc k') sts)\<rparr>)"
      by (rule Cons.IH [OF conn k' earlier here])
    finally show ?thesis
      using Suc by (simp add: log_def)
  qed
qed

text \<open>
  C1, as the code has it. A sqlite unit of at least two statements, with a connection
  configured. If \<open>execute\<close> accepts every statement but the last two, the call has handed
  them over in order, then the second-to-last statement to \<open>read_sql\<close>, and nothing else;
  its result is what \<open>read_sql\<close> gave for the second-to-last statement. If \<open>execute\<close>
  rejects one of them, the call ends at that statement with that exception. In both cases
  the last statement is handed to nobody: it is never executed.
\<close>

theorem RunSQL_sqlite_order:
  assumes split: "SplitRaw env sql '';'' = Inr statements"
    and long: "2 \<le> length statements"
    and conn: "DB_CONNECTION s = Some c"
  shows "((\<forall>k < length statements - 2.
             execute env (trace s @ map (EvExecute c) (take k statements)) c (statements ! k) =
               None) \<longrightarrow>
          RunSQL env sql ''sqlite'' s =
            (read_sql env (trace s @ map (EvExecute c) (all_but_last_two statements))
               (statements ! (length statements - 2)) (Some c),
             s\<lparr>trace := trace s @ map (EvExecute c) (all_but_last_two statements) @
                   [EvReadSql (statements ! (length statements - 2)) (Some c)]\<rparr>)) \<and>
         (\<forall>k e. k < length statements - 2 \<and>
             (\<forall>j < k. execute env (trace s @ map (EvExecute c) (take j statements)) c
                        (statements ! j) = None) \<and>
             execute env (trace s @ map (EvExecute c) (take k statements)) c (statements ! k) =
               Some e \<longrightarrow>
          RunSQL env sql ''sqlite'' s =
            (Inl e, s\<lparr>trace := trace s @ map (EvExecute c) (take (Suc k) statements)\<rparr>))"
proof -
  let ?front = "all_but_last_two statements"
  let ?pen = "statements ! (length statements - 2)"
  have len: "length ?front = length statements - 2"
    by (simp add: all_but_last_two_def)
  have nth: "?front ! k = statements ! k" if "k < length statements - 2" for k
    using that by (simp add: all_but_last_two_def)
  have tk: "take k ?front = take k statements" if "k \<le> length statements - 2" for k
    using that by (simp add: all_but_last_two_def min_def)
  have pen: "second_to_last statements = Inr ?pen"
    using long by (simp add: second_to_last_def)
  have accepted: "RunSQL env sql ''sqlite'' s =
      (read_sql env (trace s @ map (EvExecute c) ?front) ?pen (Some c),
       s\<lparr>trace := trace s @ map (EvExecute c) ?front @ [EvReadSql ?pen (Some c)]\<rparr>)"
    if all: "\<forall>k < length statements - 2.
      execute env (trace s @ map (EvExecute c) (take k statements)) c (statements ! k) = None"
  proof -
    have "\<forall>k < length ?front.
        execute env (trace s @ map (EvExecute c) (take k ?front)) c (?front ! k) = None"
      using all len nth tk by simp
    from execute_each_all [OF conn this]
    show ?thesis
      using split pen conn by (simp add: RunSQL_def log_def)
  qed
  have rejected: "RunSQL env sql ''sqlite'' s =
      (Inl e, s\<lparr>trace := trace s @ map (EvExecute c) (take (Suc k) statements)\<rparr>)"
    if k: "k < length statements - 2"
      and earlier: "\<forall>j < k. execute env (trace s @ map (EvExecute c) (take j statements)) c
                        (statements ! j) = None"
      and here: "execute env (trace s @ map (EvExecute c) (take k statements)) c
                   (statements ! k) = Some e"
    for k e
  proof -
    have k': "k < length ?front"
      using k len by simp
    have e': "\<forall>j < k. execute env (trace s @ map (EvExecute c) (take j ?front)) c (?front ! j) = None"
      using earlier k nth tk by simp
    have h': "execute env (trace s @ map (EvExecute c) (take k ?front)) c (?front ! k) = Some e"
      using here k nth tk by simp
    from execute_each_rejected [OF conn k' e' h']
    show ?thesis
      using split k tk [of "Suc k"] by (simp add: RunSQL_def)
  qed
  show ?thesis
    using accepted rejected by blast
qed

theorem RunSQL_sqlite_order_witness:
  "(SplitRaw demo_env ''CREATE TABLE t(x);INSERT INTO t VALUES (1);SELECT * FROM t'' '';'' =
     Inr [''CREATE TABLE t(x)'', ''INSERT INTO t VALUES (1)'', ''SELECT * FROM t''] \<and>
   2 \<le> length [''CREATE TABLE t(x)'', ''INSERT INTO t VALUES (1)'', ''SELECT * FROM t''] \<and>
   DB_CONNECTION connected = Some 7 \<and>
   execute demo_env (trace connected) 7 ''CREATE TABLE t(x)'' = None \<and>
   RunSQL demo_env ''CREATE TABLE t(x);INSERT INTO t VALUES (1);SELECT * FROM t'' ''sqlite''
       connected =
     (Inr ''INSERT INTO t VALUES (1)'',
      connected\<lparr>trace := [EvExecute 7 ''CREATE TABLE t(x)'',
                           EvReadSql ''INSERT INTO t VALUES (1)'' (Some 7)]\<rparr>)) \<and>
   (SplitRaw rejecting_env ''a;b;c;d;e'' '';'' = Inr [''a'', ''b'', ''c'', ''d'', ''e''] \<and>
   execute rejecting_env (trace connected) 7 ''a'' = None \<and>
   execute rejecting_env (trace connected @ [EvExecute 7 ''a'']) 7 ''b'' =
     Some (External ''rejected'') \<and>
   RunSQL rejecting_env ''a;b;c;d;e'' ''sqlite'' connected =
     (Inl (External ''rejected''),
      connected\<lparr>trace := [EvExecute 7 ''a'', EvExecute 7 ''b'']\<rparr>))"
proof -
  have accepted: "SplitRaw demo_env ''CREATE TABLE t(x);INSERT INTO t VALUES (1);SELECT * FROM t'' '';'' =
     Inr [''CREATE TABLE t(x)'', ''INSERT INTO t VALUES (1)'', ''SELECT * FROM t''] \<and>
   2 \<le> length [''CREATE TABLE t(x)'', ''INSERT INTO t VALUES (1)'', ''SELECT * FROM t''] \<and>
   DB_CONNECTION connected = Some 7 \<and>
   execute demo_env (trace connected) 7 ''CREATE TABLE t(x)'' = None \<and>
   RunSQL demo_env ''CREATE TABLE t(x);INSERT INTO t VALUES (1);SELECT * FROM t'' ''sqlite''
       connected =
     (Inr ''INSERT INTO t VALUES (1)'',
      connected\<lparr>trace := [EvExecute 7 ''CREATE TABLE t(x)'',
                           EvReadSql ''INSERT INTO t VALUES (1)'' (Some 7)]\<rparr>)"
  proof -
    let ?sql = "''CREATE TABLE t(x);INSERT INTO t VALUES (1);SELECT * FROM t''"
    let ?sts = "[''CREATE TABLE t(x)'', ''INSERT INTO t VALUES (1)'', ''SELECT * FROM t'']"
    have split: "SplitRaw demo_env ?sql '';'' = Inr ?sts"
      by (simp add: demo_env_def)
    have long: "2 \<le> length ?sts"
      by simp
    have conn: "DB_CONNECTION connected = Some 7"
      by (simp add: connected_def SetDbConnection_def)
    have empty: "trace connected = []"
      by (simp add: connected_def SetDbConnection_def initial_def)
    have accepted: "execute demo_env (trace connected) 7 ''CREATE TABLE t(x)'' = None"
      by (simp add: demo_env_def)
    have all: "\<forall>k < length ?sts - 2.
        execute demo_env (trace connected @ map (EvExecute 7) (take k ?sts)) 7 (?sts ! k) = None"
      by (simp add: demo_env_def)
    have reader: "read_sql demo_env [EvExecute 7 ''CREATE TABLE t(x)''] ''INSERT INTO t VALUES (1)''
        (Some 7) = Inr ''INSERT INTO t VALUES (1)''"
      by (simp add: demo_env_def)
    from RunSQL_sqlite_order [OF split long conn] all
    have "RunSQL demo_env ?sql ''sqlite'' connected =
        (read_sql demo_env (trace connected @ map (EvExecute 7) (all_but_last_two ?sts))
           (?sts ! (length ?sts - 2)) (Some 7),
         connected\<lparr>trace := trace connected @ map (EvExecute 7) (all_but_last_two ?sts) @
               [EvReadSql (?sts ! (length ?sts - 2)) (Some 7)]\<rparr>)"
      by blast
    then have run: "RunSQL demo_env ?sql ''sqlite'' connected =
       (Inr ''INSERT INTO t VALUES (1)'',
        connected\<lparr>trace := [EvExecute 7 ''CREATE TABLE t(x)'',
                             EvReadSql ''INSERT INTO t VALUES (1)'' (Some 7)]\<rparr>)"
      using reader empty by (simp add: all_but_last_two_def)
    from split long conn accepted run show ?thesis
      by blast
  qed
  have rejected: "SplitRaw rejecting_env ''a;b;c;d;e'' '';'' = Inr [''a'', ''b'', ''c'', ''d'', ''e''] \<and>
   execute rejecting_env (trace connected) 7 ''a'' = None \<and>
   execute rejecting_env (trace connected @ [EvExecute 7 ''a'']) 7 ''b'' =
     Some (External ''rejected'') \<and>
   RunSQL rejecting_env ''a;b;c;d;e'' ''sqlite'' connected =
     (Inl (External ''rejected''),
      connected\<lparr>trace := [EvExecute 7 ''a'', EvExecute 7 ''b'']\<rparr>)"
  proof -
    let ?sts = "[''a'', ''b'', ''c'', ''d'', ''e'']"
    have split: "SplitRaw rejecting_env ''a;b;c;d;e'' '';'' = Inr ?sts"
      by (simp add: rejecting_env_def demo_env_def)
    have long: "2 \<le> length ?sts"
      by simp
    have conn: "DB_CONNECTION connected = Some 7"
      by (simp add: connected_def SetDbConnection_def)
    have empty: "trace connected = []"
      by (simp add: connected_def SetDbConnection_def initial_def)
    have first: "execute rejecting_env (trace connected) 7 ''a'' = None"
      by (simp add: rejecting_env_def demo_env_def empty)
    have second: "execute rejecting_env (trace connected @ [EvExecute 7 ''a'']) 7 ''b'' =
        Some (External ''rejected'')"
      by (simp add: rejecting_env_def demo_env_def empty)
    have hyp: "(1::nat) < length ?sts - 2 \<and>
        (\<forall>j < (1::nat). execute rejecting_env (trace connected @ map (EvExecute 7) (take j ?sts)) 7
                   (?sts ! j) = None) \<and>
        execute rejecting_env (trace connected @ map (EvExecute 7) (take 1 ?sts)) 7 (?sts ! 1) =
          Some (External ''rejected'')"
      using first second by simp
    note order = RunSQL_sqlite_order [OF split long conn]
    note at_1 = conjunct2 [OF order, THEN spec [where x = "1::nat"],
        THEN spec [where x = "External ''rejected''"]]
    from mp [OF at_1 hyp] have "RunSQL rejecting_env ''a;b;c;d;e'' ''sqlite'' connected =
       (Inl (External ''rejected''),
        connected\<lparr>trace := [EvExecute 7 ''a'', EvExecute 7 ''b'']\<rparr>)"
      using empty by simp
    with split first second show ?thesis
      by (intro conjI) assumption+
  qed
  from accepted rejected show ?thesis
    by (rule conjI)
qed

text \<open>
  C1, as stated, fails on the three-statement unit of the specification: the first
  statement is executed, the table of the second is returned, and the third is handed
  neither to \<open>execute\<close> nor to \<open>read_sql\<close>.
\<close>

theorem RunSQL_sqlite_last_statement_counterexample:
  "SplitRaw demo_env ''CREATE TABLE t(x);INSERT INTO t VALUES (1);SELECT * FROM t'' '';'' =
     Inr [''CREATE TABLE t(x)'', ''INSERT INTO t VALUES (1)'', ''SELECT * FROM t''] \<and>
   RunSQL demo_env ''CREATE TABLE t(x);INSERT INTO t VALUES (1);SELECT * FROM t'' ''sqlite''
       connected =
     (Inr ''INSERT INTO t VALUES (1)'',
      connected\<lparr>trace := [EvExecute 7 ''CREATE TABLE t(x)'',
                           EvReadSql ''INSERT INTO t VALUES (1)'' (Some 7)]\<rparr>) \<and>
   EvExecute 7 ''SELECT * FROM t'' \<notin> set (trace (snd (RunSQL demo_env
     ''CREATE TABLE t(x);INSERT INTO t VALUES (1);SELECT * FROM t'' ''sqlite'' connected))) \<and>
   EvReadSql ''SELECT * FROM t'' (Some 7) \<notin> set (trace (snd (RunSQL demo_env
     ''CREATE TABLE t(x);INSERT INTO t VALUES (1);SELECT * FROM t'' ''sqlite'' connected)))"
  by (simp add: RunSQL_def demo_env_def connected_def initial_def SetDbConnection_def
      all_but_last_two_def second_to_last_def log_def)


section \<open>The psql branch without a connection\<close>



section \<open>The authentication gate\<close>

text \<open>
  C6, as the code has it. A call in an authenticated process returns at once and leaves
  the state as it is. A call in a process that is not authenticated performs the handshake
  first. If the handshake raises, the call ends with its exception and the flag stays
  unset. If it succeeds and a project is configured, the flag is set and nothing else
  changes. If it succeeds and no project is configured, the console is asked: its answer
  is stored as the project and the flag is set, or its exception ends the call with the
  flag unset. Hence after a call that returned, every later call, whatever the
  collaborators would do, returns at once with the state unchanged, and two calls in a row
  of which the first returned have performed one handshake.
\<close>

theorem EnsureAuthenticatedUser_idempotent:
  fixes env :: "('c, 't, 'r, 'e) env"
  shows "(USER_AUTHENTICATED s \<longrightarrow> EnsureAuthenticatedUser env s = (Inr (), s)) \<and>
         (\<not> USER_AUTHENTICATED s \<longrightarrow>
            EnsureAuthenticatedUser env s =
              (case authenticate_user env (trace s) of
                 Some e \<Rightarrow> (Inl e, s\<lparr>trace := trace s @ [EvAuthenticateUser]\<rparr>)
               | None \<Rightarrow>
                   (case PROJECT s of
                      Some p \<Rightarrow>
                        (Inr (), s\<lparr>USER_AUTHENTICATED := True,
                                   trace := trace s @ [EvAuthenticateUser]\<rparr>)
                    | None \<Rightarrow>
                        (case input_line env (trace s @ [EvAuthenticateUser]) of
                           Inl e \<Rightarrow>
                             (Inl e, s\<lparr>trace := trace s @ [EvAuthenticateUser, EvInput]\<rparr>)
                         | Inr p \<Rightarrow>
                             (Inr (), s\<lparr>PROJECT := Some p, USER_AUTHENTICATED := True,
                                        trace := trace s @ [EvAuthenticateUser, EvInput]\<rparr>))))) \<and>
         (\<forall>s1. EnsureAuthenticatedUser env s = (Inr (), s1) \<longrightarrow>
            (\<forall>env' :: ('c, 't, 'r, 'e) env. EnsureAuthenticatedUser env' s1 = (Inr (), s1)) \<and>
            (\<not> USER_AUTHENTICATED s \<longrightarrow>
               count_list (trace (snd (EnsureAuthenticatedUser env s1))) EvAuthenticateUser =
                 count_list (trace s) EvAuthenticateUser + 1))"
  by (auto simp add: EnsureAuthenticatedUser_def log_def Let_def
      split: option.splits sum.splits)

theorem EnsureAuthenticatedUser_idempotent_witness:
  "\<not> USER_AUTHENTICATED (SetProject (Some ''proj-a'') initial :: (nat, string, string) state) \<and>
   EnsureAuthenticatedUser demo_env (SetProject (Some ''proj-a'') initial) =
     (Inr (), initial\<lparr>PROJECT := Some ''proj-a'', USER_AUTHENTICATED := True,
                       trace := [EvAuthenticateUser]\<rparr>) \<and>
   EnsureAuthenticatedUser demo_env
       (initial\<lparr>PROJECT := Some ''proj-a'', USER_AUTHENTICATED := True,
                 trace := [EvAuthenticateUser]\<rparr>) =
     (Inr (), initial\<lparr>PROJECT := Some ''proj-a'', USER_AUTHENTICATED := True,
                       trace := [EvAuthenticateUser]\<rparr>) \<and>
   EnsureAuthenticatedUser demo_env initial =
     (Inr (), initial\<lparr>PROJECT := Some ''proj-a'', USER_AUTHENTICATED := True,
                       trace := [EvAuthenticateUser, EvInput]\<rparr>)"
proof -
  let ?s = "SetProject (Some ''proj-a'') initial :: (nat, string, string) state"
  let ?s1 = "initial\<lparr>PROJECT := Some ''proj-a'', USER_AUTHENTICATED := True,
                       trace := [EvAuthenticateUser]\<rparr> :: (nat, string, string) state"
  have fresh: "\<not> USER_AUTHENTICATED ?s"
    by (simp add: SetProject_def initial_def)
  have run: "EnsureAuthenticatedUser demo_env ?s = (Inr (), ?s1)"
    by (simp add: EnsureAuthenticatedUser_def demo_env_def SetProject_def initial_def log_def)
  note gate = EnsureAuthenticatedUser_idempotent [of ?s demo_env]
  have again: "EnsureAuthenticatedUser demo_env ?s1 = (Inr (), ?s1)"
    using gate run by blast
  have asked: "EnsureAuthenticatedUser demo_env initial =
     (Inr (), initial\<lparr>PROJECT := Some ''proj-a'', USER_AUTHENTICATED := True,
                       trace := [EvAuthenticateUser, EvInput]\<rparr>)"
    by (simp add: EnsureAuthenticatedUser_def demo_env_def initial_def log_def)
  from fresh run again asked show ?thesis
    by blast
qed

text \<open>
  C6, as stated, fails when the identity provider refuses the handshake: the first call
  ends with the provider's exception and leaves the flag unset, so the second call performs
  the handshake again. Two calls in a row have performed two handshakes.
\<close>

theorem EnsureAuthenticatedUser_twice_counterexample:
  "EnsureAuthenticatedUser refusing_env initial =
     (Inl (External ''handshake refused''), initial\<lparr>trace := [EvAuthenticateUser]\<rparr>) \<and>
   EnsureAuthenticatedUser refusing_env (snd (EnsureAuthenticatedUser refusing_env initial)) =
     (Inl (External ''handshake refused''),
      initial\<lparr>trace := [EvAuthenticateUser, EvAuthenticateUser]\<rparr>) \<and>
   count_list
     (trace (snd (EnsureAuthenticatedUser refusing_env
        (snd (EnsureAuthenticatedUser refusing_env initial)))))
     EvAuthenticateUser = 2"
  by (simp add: EnsureAuthenticatedUser_def refusing_env_def demo_env_def initial_def log_def)

section \<open>The authentication flag\<close>

text \<open>No function of the module clears the flag.\<close>

lemma execute_each_flag:
  "USER_AUTHENTICATED (snd (execute_each env sts s)) = USER_AUTHENTICATED s"
  by (induction sts arbitrary: s) (auto simp add: log_def split: option.splits)

lemma push_results_flag:
  "USER_AUTHENTICATED (snd (push_results m ps s)) = USER_AUTHENTICATED s"
  by (induction ps arbitrary: s) (auto split: option.splits)

lemma Logica_loop_flag:
  "USER_AUTHENTICATED (snd (Logica_loop env rules ps todo ex s)) = USER_AUTHENTICATED s"
proof (induction todo arbitrary: ex s)
  case Nil
  then show ?case by simp
next
  case (Cons p todo)
  have push: "USER_AUTHENTICATED s'' = USER_AUTHENTICATED s'"
    if "push_results m ps s' = (r, s'')" for m s' r s''
    using push_results_flag [of m ps s'] that by simp
  show ?case
    using Cons.IH
    by (auto simp add: log_def Let_def split: sum.splits error.splits prod.splits dest: push)
qed

lemma Logica_flag:
  "USER_AUTHENTICATED (snd (Logica env line cell run_query s)) = USER_AUTHENTICATED s"
  by (auto simp add: Logica_def Let_def log_def Logica_loop_flag
      split: sum.splits error.splits option.splits)

lemma EnsureAuthenticatedUser_flag:
  "USER_AUTHENTICATED s \<Longrightarrow> USER_AUTHENTICATED (snd (EnsureAuthenticatedUser env s))"
  by (simp add: EnsureAuthenticatedUser_def)

lemma RunSQL_flag:
  assumes "USER_AUTHENTICATED s"
  shows "USER_AUTHENTICATED (snd (RunSQL env sql engine s))"
proof -
  have each: "USER_AUTHENTICATED (snd (execute_each env sts s))" for sts
    using assms by (simp add: execute_each_flag)
  have "USER_AUTHENTICATED s1" if "execute_each env sts s = (r, s1)" for sts r s1
    using each [of sts] that by simp
  then show ?thesis
    using assms
    by (auto simp add: RunSQL_def EnsureAuthenticatedUser_def log_def
        split: sum.splits prod.splits)
qed

lemma call_state_flag:
  "USER_AUTHENTICATED s \<Longrightarrow> USER_AUTHENTICATED (call_state env c s)"
  by (cases c)
    (simp_all add: SetProject_def SetDbConnection_def SetTabulatedOutput_def
      EnsureAuthenticatedUser_flag RunSQL_flag Logica_flag)

lemma calls_state_flag:
  "USER_AUTHENTICATED s \<Longrightarrow> USER_AUTHENTICATED (calls_state env cs s)"
  by (induction cs arbitrary: s) (simp_all add: call_state_flag)

lemma calls_state_append:
  "calls_state env (cs1 @ cs2) s = calls_state env cs2 (calls_state env cs1 s)"
  by (induction cs1 arbitrary: s) simp_all

text \<open>
  C7. In every sequence of calls of \<open>SetProject\<close>, \<open>SetDbConnection\<close>,
  \<open>SetTabulatedOutput\<close>, \<open>EnsureAuthenticatedUser\<close>, \<open>RunSQL\<close> and \<open>Logica\<close>, from any
  state: once the flag is set after some of the calls, it is set after every further
  call. The flag never goes back to false, so it changes at most once.
\<close>

theorem authenticated_never_reverts:
  "USER_AUTHENTICATED (calls_state env before s) \<Longrightarrow>
   USER_AUTHENTICATED (calls_state env (before @ after) s)"
  by (simp add: calls_state_append calls_state_flag)

theorem authenticated_never_reverts_witness:
  "USER_AUTHENTICATED (calls_state demo_env [CallEnsureAuthenticatedUser] initial) \<and>
   USER_AUTHENTICATED (calls_state demo_env
     ([CallEnsureAuthenticatedUser] @
      [CallSetProject None, CallSetDbConnection None, CallSetTabulatedOutput False,
       CallRunSQL ''SELECT 1'' ''bigquery'', CallRunSQL ''SELECT 1'' ''unknown'',
       CallLogica ''A'' ''cell'' True, CallEnsureAuthenticatedUser]) initial)"
proof -
  have set: "USER_AUTHENTICATED (calls_state demo_env [CallEnsureAuthenticatedUser] initial)"
    by (simp add: EnsureAuthenticatedUser_def demo_env_def initial_def log_def)
  from set authenticated_never_reverts [OF set] show ?thesis
    by blast
qed

section \<open>Properties of \<open>Logica\<close>\<close>

text \<open>
  C2, on the request \<open>A, Broken\<close>, where the compiler rejects the second predicate.
  The first round of the loop compiles \<open>A\<close>, runs the executor on the queue that
  holds only the execution of \<open>A\<close>, and binds the table of \<open>A\<close>; then the lookup of
  \<open>Broken\<close> in that round's result map raises \<open>KeyError\<close>. A queued execution has been
  run and a result has been bound although a requested predicate does not compile.
\<close>

theorem Logica_executes_before_compiling_all:
  "ParseList ''A, Broken'' = [''A'', ''Broken''] \<and>
   FormattedPredicateSql demo_env () ''Broken'' = Inl (RuleCompileException ''Broken'') \<and>
   fst (Logica demo_env ''A, Broken'' ''cell'' True initial) = Inl (KeyError ''Broken'') \<and>
   trace (snd (Logica demo_env ''A, Broken'' ''cell'' True initial)) =
     [EvParseFile ''cell'', EvFormattedPredicateSql ''A'', EvExecuteLogicaProgram [''A'']] \<and>
   session (snd (Logica demo_env ''A, Broken'' ''cell'' True initial)) ''A'' =
     Some (Table ''table of A'')"
  by (simp add: Logica_def ParseList_def strip_def isspace_def demo_env_def initial_def
      log_def Let_def)

text \<open>
  C3, on the request \<open>A, A\<close>, a call that returns normally. The executor is run twice:
  after the first compilation on the queue of one execution, before the second
  predicate is compiled, and after the second compilation on the queue of two, so
  that the first execution is handed over a second time.
\<close>

theorem Logica_executes_queue_twice:
  "ParseList ''A, A'' = [''A'', ''A''] \<and>
   fst (Logica demo_env ''A, A'' ''cell'' True initial) = Inr () \<and>
   trace (snd (Logica demo_env ''A, A'' ''cell'' True initial)) =
     [EvParseFile ''cell'',
      EvFormattedPredicateSql ''A'', EvExecuteLogicaProgram [''A''],
      EvFormattedPredicateSql ''A'', EvExecuteLogicaProgram [''A'', ''A'']]"
  by (simp add: Logica_def ParseList_def strip_def isspace_def demo_env_def initial_def
      log_def Let_def)

section \<open>Failed executions\<close>

text \<open>
  The inner loop: it never calls a collaborator, and it ends with \<open>KeyError\<close> for the
  first requested predicate, in request order, that the result map lacks.
\<close>

lemma push_results_trace: "trace (snd (push_results m ps s)) = trace s"
  by (induction ps arbitrary: s) (auto split: option.splits)

lemma push_results_fst:
  "fst (push_results m ps s) =
     (case find (\<lambda>p. m p = None) ps of None \<Rightarrow> Inr () | Some p \<Rightarrow> Inl (KeyError p))"
  by (induction ps arbitrary: s) (auto split: option.splits)

lemma push_results_session:
  assumes "push_results m ps s = (Inr u, s')"
  shows "session s' p = (if p \<in> set ps then map_option Table (m p) else session s p) \<and>
         (p \<in> set ps \<longrightarrow> m p \<noteq> None)"
  using assms
proof (induction ps arbitrary: s)
  case Nil
  then show ?case by simp
next
  case (Cons q ps)
  from Cons.prems obtain t where t: "m q = Some t"
    and rest: "push_results m ps (s\<lparr>session := (session s)(q \<mapsto> Table t)\<rparr>) = (Inr u, s')"
    by (auto split: option.splits)
  from Cons.IH [OF rest] t show ?case
    by auto
qed

text \<open>Where an event sits in a trace that was extended by one or by two events.\<close>

lemma event_position:
  assumes "xs @ T = h @ y # rest"
  shows "length h < length xs + length T"
proof -
  have "length (xs @ T) = length (h @ y # rest)"
    by (simp only: assms)
  then show ?thesis
    by simp
qed

lemma one_event:
  assumes "xs @ [a] = h @ y # rest" and "length xs \<le> length h"
  shows "h = xs \<and> y = a \<and> rest = []"
proof -
  from event_position [OF assms(1)] assms(2) have len: "length h = length xs"
    by simp
  with assms(1) show ?thesis
    by simp
qed

lemma two_events:
  assumes "xs @ a # b # ext = h @ y # rest" and "length xs \<le> length h"
    and "length h < length xs + 2"
  shows "(h = xs \<and> y = a) \<or> (h = xs @ [a] \<and> y = b \<and> rest = ext)"
proof (cases "length h = length xs")
  case True
  with assms(1) show ?thesis
    by simp
next
  case False
  with assms(2,3) have len: "length (xs @ [a]) = length h"
    by simp
  have "(xs @ [a]) @ b # ext = h @ y # rest"
    using assms(1) by simp
  with len have "xs @ [a] = h \<and> b # ext = y # rest"
    using append_eq_append_conv [of "xs @ [a]" h "b # ext" "y # rest"] by blast
  then show ?thesis
    by auto
qed

lemma Logica_loop_extends:
  "\<exists>ext. trace (snd (Logica_loop env rules ps todo ex s)) = trace s @ ext"
proof (induction todo arbitrary: ex s)
  case Nil
  then show ?case by simp
next
  case (Cons p todo)
  let ?s1 = "log (EvFormattedPredicateSql p) s"
  show ?case
  proof (cases "FormattedPredicateSql env rules p")
    case (Inl e)
    then have "snd (Logica_loop env rules ps (p # todo) ex s) = ?s1"
      by (cases e) auto
    then show ?thesis
      by (simp add: log_def)
  next
    case (Inr compiled)
    obtain sql e where compiled: "compiled = (sql, e)"
      by (cases compiled)
    let ?s2 = "?s1\<lparr>session := (session ?s1)(p @ ''_sql'' \<mapsto> SqlText sql)\<rparr>"
    let ?s3 = "log (EvExecuteLogicaProgram (ex @ [e])) ?s2"
    have t3: "trace ?s3 =
        trace s @ [EvFormattedPredicateSql p, EvExecuteLogicaProgram (ex @ [e])]"
      by (simp add: log_def)
    show ?thesis
    proof (cases "ExecuteLogicaProgram env (trace ?s2) (ex @ [e])")
      case raised: (Inl x)
      then have "snd (Logica_loop env rules ps (p # todo) ex s) = ?s3"
        using Inr compiled by (simp add: Let_def)
      then show ?thesis
        using t3 by simp
    next
      case answered: (Inr m)
      obtain r4 s4 where pushed: "push_results m ps ?s3 = (r4, s4)"
        by (cases "push_results m ps ?s3")
      have t4: "trace s4 = trace ?s3"
        using push_results_trace [of m ps ?s3] pushed by simp
      show ?thesis
      proof (cases r4)
        case (Inl e4)
        then have "snd (Logica_loop env rules ps (p # todo) ex s) = s4"
          using Inr compiled answered pushed by (simp add: Let_def)
        then show ?thesis
          using t3 t4 by simp
      next
        case (Inr u)
        then have "Logica_loop env rules ps (p # todo) ex s =
            Logica_loop env rules ps todo (ex @ [e]) s4"
          using \<open>FormattedPredicateSql env rules p = Inr compiled\<close> compiled answered pushed
          by (simp add: Let_def)
        moreover obtain ext where
          "trace (snd (Logica_loop env rules ps todo (ex @ [e]) s4)) = trace s4 @ ext"
          using Cons.IH [of "ex @ [e]" s4] by auto
        ultimately show ?thesis
          using t3 t4 by simp
      qed
    qed
  qed
qed

text \<open>
  Every run of the executor in the loop that raises, or whose result map lacks a requested
  predicate, is the last event of the loop, and the loop ends with that exception, or
  with \<open>KeyError\<close> for the first predicate that is missing.
\<close>

lemma Logica_loop_fatal:
  assumes "Logica_loop env rules ps todo ex s = (r, s')"
    and "trace s' = h @ EvExecuteLogicaProgram q # rest"
    and "length (trace s) \<le> length h"
  shows "case ExecuteLogicaProgram env h q of
           Inl x \<Rightarrow> rest = [] \<and> r = Inl x
         | Inr result_map \<Rightarrow>
             (case find (\<lambda>p. result_map p = None) ps of
                Some p \<Rightarrow> rest = [] \<and> r = Inl (KeyError p)
              | None \<Rightarrow> True)"
  using assms
proof (induction todo arbitrary: ex s)
  case Nil
  then have "length (trace s) = length h + Suc (length rest)"
    by simp
  with Nil.prems(3) show ?case
    by simp
next
  case (Cons p todo)
  let ?s1 = "log (EvFormattedPredicateSql p) s"
  have t1: "trace ?s1 = trace s @ [EvFormattedPredicateSql p]"
    by (simp add: log_def)
  show ?case
  proof (cases "FormattedPredicateSql env rules p")
    case (Inl e)
    then have "s' = ?s1"
      using Cons.prems(1) by (cases e) auto
    then have "trace s @ [EvFormattedPredicateSql p] = h @ EvExecuteLogicaProgram q # rest"
      using Cons.prems(2) t1 by simp
    from one_event [OF this Cons.prems(3)] show ?thesis
      by simp
  next
    case (Inr compiled)
    obtain sql e where compiled: "compiled = (sql, e)"
      by (cases compiled)
    let ?s2 = "?s1\<lparr>session := (session ?s1)(p @ ''_sql'' \<mapsto> SqlText sql)\<rparr>"
    let ?s3 = "log (EvExecuteLogicaProgram (ex @ [e])) ?s2"
    have t2: "trace ?s2 = trace s @ [EvFormattedPredicateSql p]"
      by (simp add: log_def)
    have t3: "trace ?s3 =
        trace s @ EvFormattedPredicateSql p # EvExecuteLogicaProgram (ex @ [e]) # []"
      by (simp add: log_def)
    show ?thesis
    proof (cases "ExecuteLogicaProgram env (trace ?s2) (ex @ [e])")
      case raised: (Inl x)
      then have fin: "r = Inl x" "s' = ?s3"
        using Cons.prems(1) Inr compiled by (simp_all add: Let_def)
      then have "trace s @ EvFormattedPredicateSql p # EvExecuteLogicaProgram (ex @ [e]) # [] =
          h @ EvExecuteLogicaProgram q # rest"
        using Cons.prems(2) t3 by simp
      moreover from event_position [OF this] have "length h < length (trace s) + 2"
        by simp
      ultimately have "h = trace ?s2 \<and> q = ex @ [e] \<and> rest = []"
        using two_events [OF _ Cons.prems(3)] t2 by fastforce
      then show ?thesis
        using raised fin by simp
    next
      case answered: (Inr m)
      obtain r4 s4 where pushed: "push_results m ps ?s3 = (r4, s4)"
        by (cases "push_results m ps ?s3")
      have t4: "trace s4 = trace ?s3"
        using push_results_trace [of m ps ?s3] pushed by simp
      have r4: "r4 = (case find (\<lambda>p. m p = None) ps of
                       None \<Rightarrow> Inr () | Some p \<Rightarrow> Inl (KeyError p))"
        using push_results_fst [of m ps ?s3] pushed by simp
      show ?thesis
      proof (cases "find (\<lambda>p. m p = None) ps")
        case (Some p0)
        then have fin: "r = Inl (KeyError p0)" "s' = s4"
          using Cons.prems(1) Inr compiled answered pushed r4 by (simp_all add: Let_def)
        then have "trace s @ EvFormattedPredicateSql p # EvExecuteLogicaProgram (ex @ [e]) # [] =
            h @ EvExecuteLogicaProgram q # rest"
          using Cons.prems(2) t3 t4 by simp
        moreover from event_position [OF this] have "length h < length (trace s) + 2"
          by simp
        ultimately have "h = trace ?s2 \<and> q = ex @ [e] \<and> rest = []"
          using two_events [OF _ Cons.prems(3)] t2 by fastforce
        then show ?thesis
          using answered Some fin by simp
      next
        case None
        then have rest: "Logica_loop env rules ps todo (ex @ [e]) s4 = (r, s')"
          using Cons.prems(1) Inr compiled answered pushed r4 by (simp add: Let_def)
        show ?thesis
        proof (cases "length (trace s4) \<le> length h")
          case True
          from Cons.IH [OF rest Cons.prems(2) True] show ?thesis .
        next
          case False
          from Logica_loop_extends [of env rules ps todo "ex @ [e]" s4] rest
          obtain ext where "trace s' = trace s4 @ ext"
            by auto
          then have "trace s @ EvFormattedPredicateSql p # EvExecuteLogicaProgram (ex @ [e]) # ext =
              h @ EvExecuteLogicaProgram q # rest"
            using Cons.prems(2) t3 t4 by simp
          moreover have "length h < length (trace s) + 2"
            using False t3 t4 by simp
          ultimately have "h = trace ?s2 \<and> q = ex @ [e]"
            using two_events [OF _ Cons.prems(3)] t2 by fastforce
          then show ?thesis
            using answered None by simp
        qed
      qed
    qed
  qed
qed

text \<open>
  A loop that returns normally after every compilation succeeded has bound a table to every
  requested predicate.
\<close>

lemma Logica_loop_binds_all:
  assumes "Logica_loop env rules ps todo ex s = (Inr u, s')"
    and "todo \<noteq> []"
    and "\<forall>p \<in> set todo. \<exists>sql e. FormattedPredicateSql env rules p = Inr (sql, e)"
    and "q \<in> set ps"
  shows "\<exists>t. session s' q = Some (Table t)"
  using assms
proof (induction todo arbitrary: ex s)
  case Nil
  then show ?case by simp
next
  case (Cons p todo)
  from Cons.prems(3) obtain sql e where compiled: "FormattedPredicateSql env rules p = Inr (sql, e)"
    by auto
  let ?s1 = "log (EvFormattedPredicateSql p) s"
  let ?s2 = "?s1\<lparr>session := (session ?s1)(p @ ''_sql'' \<mapsto> SqlText sql)\<rparr>"
  let ?s3 = "log (EvExecuteLogicaProgram (ex @ [e])) ?s2"
  from Cons.prems(1) compiled obtain m where
    m: "ExecuteLogicaProgram env (trace ?s2) (ex @ [e]) = Inr m"
    by (cases "ExecuteLogicaProgram env (trace ?s2) (ex @ [e])") (simp_all add: Let_def)
  obtain r s4 where pushed: "push_results m ps ?s3 = (r, s4)"
    by (cases "push_results m ps ?s3")
  from Cons.prems(1) compiled m pushed obtain u' where r: "r = Inr u'"
    by (cases r) (simp_all add: Let_def)
  have rest: "Logica_loop env rules ps todo (ex @ [e]) s4 = (Inr u, s')"
    using Cons.prems(1) compiled m pushed r by (simp add: Let_def)
  show ?case
  proof (cases "todo = []")
    case True
    then have "s' = s4"
      using rest by simp
    moreover have "session s4 q = map_option Table (m q) \<and> m q \<noteq> None"
      using push_results_session [of m ps ?s3 u' s4 q] pushed r Cons.prems(4) by simp
    ultimately show ?thesis
      by auto
  next
    case False
    then show ?thesis
      using Cons.IH [OF rest] Cons.prems(3,4) by simp
  qed
qed

text \<open>
  C5, as the code has it. \<open>Logica\<close> has no handler for a failed execution and keeps no
  set of errors: a failed execution ends the call. Take any call and any run of the
  executor that the call has made. If that run raised, it is the last thing the call did,
  and the call ended with that exception. If its result map lacks a requested predicate,
  it is again the last thing the call did, and the call ended with \<open>KeyError\<close> for the
  first such predicate in request order. And a call that returns normally, every
  requested predicate having compiled, has bound a table to every requested predicate:
  none is left out.
\<close>

theorem Logica_execution_failure_fatal:
  assumes run: "Logica env line cell run_query s = (r, s')"
  shows "(\<forall>h q rest.
            trace s' = h @ EvExecuteLogicaProgram q # rest \<and> length (trace s) \<le> length h \<longrightarrow>
            (case ExecuteLogicaProgram env h q of
               Inl x \<Rightarrow> rest = [] \<and> r = Inl x
             | Inr result_map \<Rightarrow>
                 (case find (\<lambda>p. result_map p = None) (ParseList line) of
                    Some p \<Rightarrow> rest = [] \<and> r = Inl (KeyError p)
                  | None \<Rightarrow> True))) \<and>
         (\<forall>rules u.
            r = Inr u \<and> ParseFile env cell = Inr rules \<and>
            (\<forall>p \<in> set (ParseList line). \<exists>sql e. FormattedPredicateSql env rules p = Inr (sql, e)) \<longrightarrow>
            (\<forall>p \<in> set (ParseList line). \<exists>t. session s' p = Some (Table t)))"
proof -
  let ?ps = "ParseList line"
  let ?s1 = "log (EvParseFile cell) s"
  have t1: "trace ?s1 = trace s @ [EvParseFile cell]"
    by (simp add: log_def)
  have looped: "Logica_loop env rules ?ps ?ps [] ?s1 = (r, s')"
    if "ParseFile env cell = Inr rules" "LogicaProgram env rules = None"
      "Engine env rules = Inr engine" for rules engine
    using run that by (simp add: Logica_def Let_def)
  have stopped: "s' = ?s1"
    if "\<not> (\<exists>rules engine. ParseFile env cell = Inr rules \<and> LogicaProgram env rules = None \<and>
          Engine env rules = Inr engine)"
    using run that
    by (auto simp add: Logica_def Let_def split: sum.splits error.splits option.splits)
  have fatal: "case ExecuteLogicaProgram env h q of
               Inl x \<Rightarrow> rest = [] \<and> r = Inl x
             | Inr result_map \<Rightarrow>
                 (case find (\<lambda>p. result_map p = None) ?ps of
                    Some p \<Rightarrow> rest = [] \<and> r = Inl (KeyError p)
                  | None \<Rightarrow> True)"
    if at: "trace s' = h @ EvExecuteLogicaProgram q # rest" and new: "length (trace s) \<le> length h"
    for h q rest
  proof (cases "\<exists>rules engine. ParseFile env cell = Inr rules \<and> LogicaProgram env rules = None \<and>
          Engine env rules = Inr engine")
    case False
    from stopped [OF False] at t1
    have "trace s @ [EvParseFile cell] = h @ EvExecuteLogicaProgram q # rest"
      by simp
    from one_event [OF this new] show ?thesis
      by simp
  next
    case True
    then obtain rules engine where ok: "ParseFile env cell = Inr rules"
      "LogicaProgram env rules = None" "Engine env rules = Inr engine"
      by blast
    note loop = looped [OF ok]
    from Logica_loop_extends [of env rules ?ps ?ps "[]" ?s1] loop
    obtain ext where ext: "trace s' = trace s @ EvParseFile cell # ext"
      using t1 by auto
    have "length h \<noteq> length (trace s)"
    proof
      assume same: "length h = length (trace s)"
      from ext at have "trace s @ EvParseFile cell # ext = h @ EvExecuteLogicaProgram q # rest"
        by simp
      with same show False
        by simp
    qed
    with new have "length (trace ?s1) \<le> length h"
      using t1 by simp
    from Logica_loop_fatal [OF loop at this] show ?thesis .
  qed
  have bound: "\<exists>t. session s' p = Some (Table t)"
    if "r = Inr u" and parsed: "ParseFile env cell = Inr rules"
      and compiled: "\<forall>p \<in> set ?ps. \<exists>sql e. FormattedPredicateSql env rules p = Inr (sql, e)"
      and p: "p \<in> set ?ps"
    for rules u p
  proof -
    from p have nonempty: "?ps \<noteq> []"
      by auto
    have "Logica_loop env rules ?ps ?ps [] ?s1 = (Inr u, s')"
      using run \<open>r = Inr u\<close> parsed
      by (auto simp add: Logica_def Let_def split: sum.splits option.splits)
    from Logica_loop_binds_all [OF this nonempty compiled p] show ?thesis .
  qed
  show ?thesis
    using fatal bound by blast
qed

theorem Logica_execution_failure_fatal_witness:
  "ParseList ''C, A, B'' = [''C'', ''A'', ''B''] \<and>
   trace (snd (Logica dependent_env ''C, A, B'' ''cell'' True initial)) =
     [EvParseFile ''cell'', EvFormattedPredicateSql ''C''] @
     EvExecuteLogicaProgram [[''C'', ''A'', ''B'']] # [] \<and>
   length (trace (initial :: (nat, string, string list) state)) \<le>
     length ([EvParseFile ''cell'', EvFormattedPredicateSql ''C''] ::
       (nat, string list) event list) \<and>
   (case ExecuteLogicaProgram dependent_env
           [EvParseFile ''cell'', EvFormattedPredicateSql ''C''] [[''C'', ''A'', ''B'']] of
      Inl x \<Rightarrow> False
    | Inr result_map \<Rightarrow>
        find (\<lambda>p. result_map p = None) (ParseList ''C, A, B'') = Some ''A'') \<and>
   fst (Logica dependent_env ''C, A, B'' ''cell'' True initial) = Inl (KeyError ''A'')"
proof -
  let ?run = "Logica dependent_env ''C, A, B'' ''cell'' True initial"
  let ?h = "[EvParseFile ''cell'', EvFormattedPredicateSql ''C''] :: (nat, string list) event list"
  have list: "ParseList ''C, A, B'' = [''C'', ''A'', ''B'']"
    by (simp add: ParseList_def strip_def isspace_def)
  have at: "trace (snd ?run) = ?h @ EvExecuteLogicaProgram [[''C'', ''A'', ''B'']] # []"
    by (simp add: Logica_def list dependent_env_def initial_def log_def Let_def)
  have new: "length (trace (initial :: (nat, string, string list) state)) \<le> length ?h"
    by (simp add: initial_def)
  have answer: "case ExecuteLogicaProgram dependent_env ?h [[''C'', ''A'', ''B'']] of
      Inl x \<Rightarrow> False
    | Inr result_map \<Rightarrow>
        find (\<lambda>p. result_map p = None) (ParseList ''C, A, B'') = Some ''A''"
    by (simp add: list dependent_env_def)
  have "?run = (fst ?run, snd ?run)"
    by simp
  note fatal = Logica_execution_failure_fatal [OF this]
  note at_h = conjunct1 [OF fatal, THEN spec [where x = "?h"],
      THEN spec [where x = "[[''C'', ''A'', ''B'']]"], THEN spec [where x = "[]"]]
  from at new have "trace (snd ?run) = ?h @ EvExecuteLogicaProgram [[''C'', ''A'', ''B'']] # [] \<and>
      length (trace (initial :: (nat, string, string list) state)) \<le> length ?h"
    by (rule conjI)
  from mp [OF at_h this] answer have "fst ?run = Inl (KeyError ''A'')"
    by (auto split: sum.splits option.splits)
  with list at new answer show ?thesis
    by (intro conjI) assumption+
qed

text \<open>
  C5, as stated, fails on the request \<open>C, A, B\<close> where \<open>C\<close> depends on \<open>A\<close> and \<open>B\<close>
  and the computation of \<open>A\<close> fails: the executor's one run computes the tables of \<open>C\<close>
  and \<open>B\<close> and leaves \<open>A\<close> out of its result map, as the claim has it, but the call then
  ends with \<open>KeyError\<close> for \<open>A\<close>, and \<open>B\<close>, whose execution succeeded, is not bound.
\<close>

theorem Logica_execution_failure_counterexample:
  "ParseList ''C, A, B'' = [''C'', ''A'', ''B''] \<and>
   trace (snd (Logica dependent_env ''C, A, B'' ''cell'' True initial)) =
     [EvParseFile ''cell'', EvFormattedPredicateSql ''C'',
      EvExecuteLogicaProgram [[''C'', ''A'', ''B'']]] \<and>
   (case ExecuteLogicaProgram dependent_env
           [EvParseFile ''cell'', EvFormattedPredicateSql ''C''] [[''C'', ''A'', ''B'']] of
      Inl x \<Rightarrow> False
    | Inr result_map \<Rightarrow>
        result_map ''C'' = Some ''table of C'' \<and> result_map ''A'' = None \<and>
        result_map ''B'' = Some ''table of B'') \<and>
   fst (Logica dependent_env ''C, A, B'' ''cell'' True initial) = Inl (KeyError ''A'') \<and>
   session (snd (Logica dependent_env ''C, A, B'' ''cell'' True initial)) ''C'' =
     Some (Table ''table of C'') \<and>
   session (snd (Logica dependent_env ''C, A, B'' ''cell'' True initial)) ''B'' = None"
  by (simp add: Logica_def ParseList_def strip_def isspace_def dependent_env_def initial_def
      log_def Let_def)

section \<open>Properties of the statement splitter\<close>























end
